theory Spec2Isabelle
  imports Main "HOL-Library.AList"
begin

section \<open>Data model\<close>

text \<open>
  The exceptions the script can meet. \<open>AttributeError\<close> is what Python raises for
  \<^verbatim>\<open>None.text\<close> in \<^verbatim>\<open>get_title\<close>. \<open>RequestException\<close> and
  \<open>ParserRejectedMarkup\<close> stand for a failure raised by \<^verbatim>\<open>requests.get\<close> and by the
  \<^verbatim>\<open>BeautifulSoup\<close> constructor. \<open>IllegalCharacterError\<close> is what the spreadsheet
  writer raises on a cell value it refuses, and \<open>ValueError\<close> what the charting library
  raises on a label it refuses.
\<close>

datatype exn =
  AttributeError | RequestException | ParserRejectedMarkup | IllegalCharacterError | ValueError

text \<open>
  The parsed document: a tree of tags and text nodes. The \<^verbatim>\<open>BeautifulSoup\<close> object
  itself is a tag (named \<^verbatim>\<open>[document]\<close>) whose children are the top-level nodes.
\<close>

datatype node = NavigableString string | Tag string "node list"

text \<open>\<^verbatim>\<open>Tag.descendants\<close>: every node below a tag, in document order (pre-order).\<close>

fun descendants :: "node \<Rightarrow> node list" where
  "descendants (NavigableString s) = []"
| "descendants (Tag name children) = concat (map (\<lambda>c. c # descendants c) children)"

fun has_name :: "string \<Rightarrow> node \<Rightarrow> bool" where
  "has_name name (NavigableString s) = False"
| "has_name name (Tag n children) = (n = name)"

text \<open>\<^verbatim>\<open>find_all(name)\<close>: the descendant tags of that name, in document order.\<close>

definition find_all :: "string \<Rightarrow> node \<Rightarrow> node list" where
  "find_all name nd = filter (has_name name) (descendants nd)"

text \<open>\<^verbatim>\<open>find(name)\<close>: the first such tag, or \<^verbatim>\<open>None\<close>.\<close>

definition find_first :: "string \<Rightarrow> node \<Rightarrow> node option" where
  "find_first name nd = (case find_all name nd of [] \<Rightarrow> None | t # ts \<Rightarrow> Some t)"

text \<open>
  \<^verbatim>\<open>.text\<close>: the strings below a node, concatenated in document order. The tree holds
  the strings that \<^verbatim>\<open>.text\<close> reads; comments and the content of script and style
  tags, which it passes over, are not nodes of the tree.
\<close>

fun text_of :: "node \<Rightarrow> string" where
  "text_of (NavigableString s) = s"
| "text_of (Tag name children) = concat (map text_of children)"

section \<open>The functions of the script\<close>

text \<open>Python's \<^verbatim>\<open>keyword in item_searched\<close> on strings: contiguous substring.\<close>

fun starts_with :: "string \<Rightarrow> string \<Rightarrow> bool" where
  "starts_with [] s = True"
| "starts_with (k # ks) [] = False"
| "starts_with (k # ks) (c # cs) = (k = c \<and> starts_with ks cs)"

fun str_in :: "string \<Rightarrow> string \<Rightarrow> bool" where
  "str_in keyword [] = (keyword = [])"
| "str_in keyword (c # cs) = (starts_with keyword (c # cs) \<or> str_in keyword cs)"

text \<open>
  \<^verbatim>\<open>contains_keywords\<close>:
  \<^verbatim>\<open>any(keyword in item_searched for keyword in items_searched_for)\<close>.
\<close>

definition contains_keywords :: "string \<Rightarrow> string list \<Rightarrow> bool" where
  "contains_keywords item_searched items_searched_for =
     list_ex (\<lambda>keyword. str_in keyword item_searched) items_searched_for"

text \<open>
  \<^verbatim>\<open>get_title\<close>: \<^verbatim>\<open>article.find(tag).text.lower()\<close>. When \<^verbatim>\<open>find\<close> returns
  \<^verbatim>\<open>None\<close>, reading \<^verbatim>\<open>.text\<close> raises \<^verbatim>\<open>AttributeError\<close>.

  \<^verbatim>\<open>str.lower\<close> is Python's: it follows the Unicode case tables, which are not part of
  the script. It is the parameter \<open>lower\<close> of \<open>get_title\<close> and of the functions that call
  it, so that what is proved holds for the built-in, whatever it maps a string to. A
  \<^typ>\<open>string\<close> is the text in an encoding in which a substring of the text is a
  substring of the bytes (ASCII, UTF-8).
\<close>

definition get_title :: "(string \<Rightarrow> string) \<Rightarrow> node \<Rightarrow> string \<Rightarrow> exn + string" where
  "get_title lower article tag =
     (case find_first tag article of
        None \<Rightarrow> Inl AttributeError
      | Some heading \<Rightarrow> Inr (lower (text_of heading)))"

text \<open>
  The loop of \<^verbatim>\<open>get_filtered_titles\<close> over the article nodes not yet visited, with
  the list \<^verbatim>\<open>titles\<close> built so far. An \<^verbatim>\<open>AttributeError\<close> raised in the
  \<^verbatim>\<open>try\<close> block is caught and the loop continues with the next node, without
  reaching the length test; any other exception leaves the function. After the
  \<^verbatim>\<open>try\<close> block the loop stops when \<^verbatim>\<open>len(titles) == max_article\<close>.
\<close>

fun filter_loop ::
  "(string \<Rightarrow> string) \<Rightarrow> node list \<Rightarrow> string list \<Rightarrow> int \<Rightarrow> string list
     \<Rightarrow> exn + string list" where
  "filter_loop lower [] key_words max_article titles = Inr titles"
| "filter_loop lower (articles # rest) key_words max_article titles =
     (case get_title lower articles ''h4'' of
        Inl e \<Rightarrow>
          (if e = AttributeError then filter_loop lower rest key_words max_article titles
           else Inl e)
      | Inr title \<Rightarrow>
          (let titles' = (if contains_keywords title key_words then titles @ [title]
                          else titles)
           in if int (length titles') = max_article then Inr titles'
              else filter_loop lower rest key_words max_article titles'))"

definition get_filtered_titles ::
  "(string \<Rightarrow> string) \<Rightarrow> node \<Rightarrow> string list \<Rightarrow> int \<Rightarrow> exn + string list" where
  "get_filtered_titles lower soup key_words max_article =
     filter_loop lower (find_all ''article'' soup) key_words max_article []"

text \<open>
  The dictionary comprehension of \<^verbatim>\<open>scrape_and_analyze\<close>:
  \<^verbatim>\<open>{key: sum(contains_keywords(title, [key]) for title in titles) for key in key_words}\<close>.
  A Python dictionary keeps one entry per key, in the order of first insertion; storing
  under a key that is present replaces its value in place. That is
  \<^const>\<open>AList.update\<close> on a list of pairs.
\<close>

definition keyword_count :: "string \<Rightarrow> string list \<Rightarrow> int" where
  "keyword_count key titles =
     sum_list (map (\<lambda>title. if contains_keywords title [key] then 1 else 0) titles)"

definition word_count :: "string list \<Rightarrow> string list \<Rightarrow> (string \<times> int) list" where
  "word_count titles key_words =
     foldl (\<lambda>d key. AList.update key (keyword_count key titles) d) [] key_words"

section \<open>Fetching, exporting and rendering\<close>

text \<open>
  What the script calls and does not define. \<^verbatim>\<open>requests.get(url).text\<close> and
  \<^verbatim>\<open>BeautifulSoup(text, 'html.parser')\<close> either raise or return. \<open>str_lower\<close> is
  \<^verbatim>\<open>str.lower\<close>. \<open>cell_refused\<close> holds of the cell values on which the spreadsheet
  writer raises (a string with a control character is one), \<open>label_refused\<close> of the bar
  labels on which the charting library raises.
\<close>

record env =
  requests_get :: "string \<Rightarrow> exn + string"
  BeautifulSoup :: "string \<Rightarrow> exn + node"
  str_lower :: "string \<Rightarrow> string"
  cell_refused :: "string \<Rightarrow> bool"
  label_refused :: "string \<Rightarrow> bool"

text \<open>
  What a run leaves behind: the spreadsheet files written (file name, column header and
  rows; writing a file again replaces it) and the charts displayed, oldest first.
\<close>

record chart =
  bars :: "(string \<times> int) list"
  xlabel :: string
  ylabel :: string
  chart_title :: string

record world =
  excel_files :: "(string \<times> string \<times> string list) list"
  charts_shown :: "chart list"

definition get_articles_soup :: "env \<Rightarrow> string \<Rightarrow> exn + node" where
  "get_articles_soup ev url =
     (case requests_get ev url of
        Inl e \<Rightarrow> Inl e
      | Inr response_text \<Rightarrow> BeautifulSoup ev response_text)"

text \<open>
  \<^verbatim>\<open>save_titles_to_excel\<close>: the frame with the one column "Title" is written row by
  row. On a title that the writer refuses, \<^verbatim>\<open>to_excel\<close> raises; the writer is closed
  on the way out, which leaves the file with the header and the rows written before.
\<close>

definition save_titles_to_excel ::
  "env \<Rightarrow> string list \<Rightarrow> string \<Rightarrow> world \<Rightarrow> (exn + unit) \<times> world" where
  "save_titles_to_excel ev titles filename w =
     (if list_ex (cell_refused ev) titles
      then (Inl IllegalCharacterError,
            w\<lparr>excel_files := AList.update filename
                 (''Title'', takeWhile (\<lambda>title. \<not> cell_refused ev title) titles)
                 (excel_files w)\<rparr>)
      else (Inr (),
            w\<lparr>excel_files := AList.update filename (''Title'', titles) (excel_files w)\<rparr>))"

text \<open>
  \<^verbatim>\<open>create_bar_chart\<close>: one bar per key of the dictionary. On a label that the charting
  library refuses it raises, and no chart is displayed.
\<close>

definition create_bar_chart ::
  "env \<Rightarrow> (string \<times> int) list \<Rightarrow> world \<Rightarrow> (exn + unit) \<times> world" where
  "create_bar_chart ev wc w =
     (if list_ex (label_refused ev) (map fst wc) then (Inl ValueError, w)
      else (Inr (),
            w\<lparr>charts_shown := charts_shown w @
               [\<lparr>bars = wc, xlabel = ''Keywords'', ylabel = ''Number of Articles'',
                 chart_title = ''Article Counts by Keyword''\<rparr>]\<rparr>))"

text \<open>
  \<^verbatim>\<open>scrape_and_analyze\<close>: an exception raised by a step leaves the function at that
  step, with the world as it is then.
\<close>

definition scrape_and_analyze ::
  "env \<Rightarrow> string \<Rightarrow> string list \<Rightarrow> int \<Rightarrow> world
     \<Rightarrow> (exn + string list \<times> (string \<times> int) list) \<times> world" where
  "scrape_and_analyze ev url key_words max_article w =
     (case get_articles_soup ev url of
        Inl e \<Rightarrow> (Inl e, w)
      | Inr soup \<Rightarrow>
          (case get_filtered_titles (str_lower ev) soup key_words max_article of
             Inl e \<Rightarrow> (Inl e, w)
           | Inr titles \<Rightarrow>
               (case save_titles_to_excel ev titles ''article_titles.xlsx'' w of
                  (Inl e, w1) \<Rightarrow> (Inl e, w1)
                | (Inr saved, w1) \<Rightarrow>
                    (let wc = word_count titles key_words
                     in case create_bar_chart ev wc w1 of
                          (Inl e, w2) \<Rightarrow> (Inl e, w2)
                        | (Inr shown, w2) \<Rightarrow> (Inr (titles, wc), w2)))))"

section \<open>Sample inputs\<close>

definition article_with_title :: "string \<Rightarrow> node" where
  "article_with_title t = Tag ''article'' [Tag ''h4'' [NavigableString t]]"

definition article_without_heading :: node where
  "article_without_heading = Tag ''article'' [Tag ''a'' [NavigableString ''more'']]"

definition document :: "node list \<Rightarrow> node" where
  "document children = Tag ''[document]'' children"

definition bank_soup :: node where
  "bank_soup = document [article_with_title ''bank'', article_with_title ''Bank bank'']"

definition five_soup :: node where
  "five_soup = document
     [article_with_title ''bank one'', article_with_title ''bank two'',
      article_without_heading,
      article_with_title ''bank four'', article_with_title ''bank five'']"

definition ctrl_soup :: node where
  "ctrl_soup = document
     [article_with_title ''bank'', article_with_title (''bank'' @ [CHR 0x0B]),
      article_with_title ''bank bank'']"

text \<open>
  \<^verbatim>\<open>str.lower\<close> on ASCII text, which is what the sample pages hold: the letters A to Z
  are mapped to a to z, every other character is kept.
\<close>

definition ascii_lower_char :: "char \<Rightarrow> char" where
  "ascii_lower_char c =
     (let n = (of_char c :: nat) in if 65 \<le> n \<and> n \<le> 90 then char_of (n + 32) else c)"

definition ascii_lower :: "string \<Rightarrow> string" where
  "ascii_lower s = map ascii_lower_char s"

text \<open>
  The characters on which the spreadsheet writer of the sample environments raises: the
  control characters below 32 other than tab, line feed and carriage return.
\<close>

definition illegal_character :: "char \<Rightarrow> bool" where
  "illegal_character c =
     (let n = (of_char c :: nat) in n \<le> 8 \<or> n = 11 \<or> n = 12 \<or> (14 \<le> n \<and> n \<le> 31))"

definition sample_env :: "node \<Rightarrow> env" where
  "sample_env soup =
     \<lparr>requests_get = (\<lambda>url. Inr ''<html>''), BeautifulSoup = (\<lambda>markup. Inr soup),
      str_lower = ascii_lower, cell_refused = list_ex illegal_character,
      label_refused = (\<lambda>label. False)\<rparr>"

definition offline_env :: env where
  "offline_env =
     \<lparr>requests_get = (\<lambda>url. Inl RequestException),
      BeautifulSoup = (\<lambda>markup. Inr (document [])),
      str_lower = ascii_lower, cell_refused = list_ex illegal_character,
      label_refused = (\<lambda>label. False)\<rparr>"

definition unparsable_env :: env where
  "unparsable_env =
     \<lparr>requests_get = (\<lambda>url. Inr ''<html>''),
      BeautifulSoup = (\<lambda>markup. Inl ParserRejectedMarkup),
      str_lower = ascii_lower, cell_refused = list_ex illegal_character,
      label_refused = (\<lambda>label. False)\<rparr>"

definition empty_world :: world where
  "empty_world = \<lparr>excel_files = [], charts_shown = []\<rparr>"

section \<open>The titles of a document\<close>

text \<open>
  A name for stating properties, not a function of the script: the titles of the article
  nodes of a tree that have a heading, in document order.
\<close>

definition document_titles :: "(string \<Rightarrow> string) \<Rightarrow> node \<Rightarrow> string list" where
  "document_titles lower soup =
     concat (map (\<lambda>a. case get_title lower a ''h4'' of Inl e \<Rightarrow> [] | Inr t \<Rightarrow> [t])
       (find_all ''article'' soup))"

section \<open>Properties of the loop and of the dictionary\<close>

lemma get_title_error: "get_title lower a tag = Inl e \<Longrightarrow> e = AttributeError"
  by (auto simp: get_title_def split: option.splits)

lemma filter_loop_returns: "\<exists>ts. filter_loop lower arts kws m acc = Inr ts"
proof (induction arts arbitrary: acc)
  case Nil
  show ?case by simp
next
  case (Cons a arts)
  show ?case
  proof (cases "get_title lower a ''h4''")
    case (Inl e)
    then have "e = AttributeError" by (rule get_title_error)
    with Inl Cons.IH [of acc] show ?thesis by simp
  next
    case (Inr t)
    with Cons.IH show ?thesis by (simp add: Let_def)
  qed
qed

lemma filter_loop_length:
  "int (length acc) < m \<Longrightarrow> filter_loop lower arts kws m acc = Inr ts \<Longrightarrow> int (length ts) \<le> m"
proof (induction arts arbitrary: acc)
  case Nil
  then show ?case by simp
next
  case (Cons a arts)
  show ?case
  proof (cases "get_title lower a ''h4''")
    case (Inl e)
    with Cons.prems Cons.IH [of acc] show ?thesis by (simp split: if_splits)
  next
    case (Inr t)
    let ?acc' = "if contains_keywords t kws then acc @ [t] else acc"
    show ?thesis
    proof (cases "int (length ?acc') = m")
      case True
      with Inr Cons.prems show ?thesis by (auto simp: Let_def split: if_splits)
    next
      case False
      with Cons.prems(1) have lt: "int (length ?acc') < m" by (auto split: if_splits)
      from False Inr Cons.prems(2) have "filter_loop lower arts kws m ?acc' = Inr ts"
        by (simp add: Let_def)
      with lt show ?thesis by (rule Cons.IH)
    qed
  qed
qed

lemma filter_loop_members:
  "filter_loop lower arts kws m acc = Inr ts \<Longrightarrow> t \<in> set ts \<Longrightarrow> t \<in> set acc \<or> contains_keywords t kws"
proof (induction arts arbitrary: acc)
  case Nil
  then show ?case by simp
next
  case (Cons a arts)
  show ?case
  proof (cases "get_title lower a ''h4''")
    case (Inl e)
    with Cons.prems Cons.IH [of acc] show ?thesis by (simp split: if_splits)
  next
    case (Inr u)
    let ?acc' = "if contains_keywords u kws then acc @ [u] else acc"
    have step: "t \<in> set ?acc' \<Longrightarrow> t \<in> set acc \<or> contains_keywords t kws"
      by (auto split: if_splits)
    show ?thesis
    proof (cases "int (length ?acc') = m")
      case True
      with Inr Cons.prems(1) have "ts = ?acc'" by (simp add: Let_def)
      with Cons.prems(2) step show ?thesis by simp
    next
      case False
      with Inr Cons.prems(1) have "filter_loop lower arts kws m ?acc' = Inr ts"
        by (simp add: Let_def)
      from Cons.IH [OF this Cons.prems(2)] step show ?thesis by blast
    qed
  qed
qed

lemma starts_with_iff: "starts_with k s \<longleftrightarrow> (\<exists>ss. s = k @ ss)"
  by (induction k s rule: starts_with.induct) auto

lemma str_in_iff: "str_in k t \<longleftrightarrow> (\<exists>ps ss. t = ps @ k @ ss)"
proof (induction t)
  case Nil
  show ?case by auto
next
  case (Cons c cs)
  show ?case
  proof
    assume "str_in k (c # cs)"
    then consider "starts_with k (c # cs)" | "str_in k cs" by auto
    then show "\<exists>ps ss. c # cs = ps @ k @ ss"
    proof cases
      case 1
      then obtain ss where "c # cs = k @ ss" by (auto simp: starts_with_iff)
      then have "c # cs = [] @ k @ ss" by simp
      then show ?thesis by blast
    next
      case 2
      with Cons.IH obtain ps ss where "cs = ps @ k @ ss" by blast
      then have "c # cs = (c # ps) @ k @ ss" by simp
      then show ?thesis by blast
    qed
  next
    assume "\<exists>ps ss. c # cs = ps @ k @ ss"
    then obtain ps ss where eq: "c # cs = ps @ k @ ss" by blast
    show "str_in k (c # cs)"
    proof (cases ps)
      case Nil
      with eq have "starts_with k (c # cs)" by (auto simp: starts_with_iff)
      then show ?thesis by simp
    next
      case (Cons p ps')
      with eq have "cs = ps' @ k @ ss" by simp
      with Cons.IH have "str_in k cs" by blast
      then show ?thesis by simp
    qed
  qed
qed

lemma contains_keywords_iff:
  "contains_keywords t kws \<longleftrightarrow> (\<exists>k\<in>set kws. \<exists>ps ss. t = ps @ k @ ss)"
  by (simp add: contains_keywords_def list_ex_iff str_in_iff)

lemma keyword_count_filter:
  "keyword_count k titles = int (length (filter (str_in k) titles))"
  by (induction titles) (simp_all add: keyword_count_def contains_keywords_def)

lemma keyword_count_le: "keyword_count k titles \<le> int (length titles)"
proof -
  have "length (filter (str_in k) titles) \<le> length titles" by (rule length_filter_le)
  then show ?thesis by (simp add: keyword_count_filter)
qed

lemma map_of_dict_fold:
  "map_of (foldl (\<lambda>d key. AList.update key (f key) d) d0 kws) k =
     (if k \<in> set kws then Some (f k) else map_of d0 k)"
  by (induction kws arbitrary: d0) (auto simp: update_conv')

lemma map_of_word_count:
  "map_of (word_count titles kws) k =
     (if k \<in> set kws then Some (keyword_count k titles) else None)"
  by (simp add: word_count_def map_of_dict_fold)

lemma keys_dict_fold:
  "fst ` set (foldl (\<lambda>d key. AList.update key (f key) d) d0 kws) = fst ` set d0 \<union> set kws"
  by (induction kws arbitrary: d0) (auto simp: dom_update)

lemma distinct_dict_fold:
  "distinct (map fst d0) \<Longrightarrow>
     distinct (map fst (foldl (\<lambda>d key. AList.update key (f key) d) d0 kws))"
  by (induction kws arbitrary: d0) (auto simp: distinct_update)

lemma filter_loop_skip:
  "get_title lower a ''h4'' = Inl AttributeError \<Longrightarrow>
     filter_loop lower (xs @ a # ys) kws m acc = filter_loop lower (xs @ ys) kws m acc"
  by (induction xs arbitrary: acc) (auto simp: Let_def split: sum.splits)

lemma filter_loop_negative:
  "m < 0 \<Longrightarrow> filter_loop lower arts kws m acc =
     Inr (acc @ filter (\<lambda>t. contains_keywords t kws)
        (concat (map (\<lambda>a. case get_title lower a ''h4'' of Inl e \<Rightarrow> [] | Inr t \<Rightarrow> [t]) arts)))"
proof (induction arts arbitrary: acc)
  case Nil
  show ?case by simp
next
  case (Cons a arts)
  show ?case
  proof (cases "get_title lower a ''h4''")
    case (Inl e)
    then have "e = AttributeError" by (rule get_title_error)
    with Inl Cons.IH [OF Cons.prems, of acc] show ?thesis by simp
  next
    case (Inr t)
    with Cons.prems Cons.IH [OF Cons.prems] show ?thesis by (simp add: Let_def)
  qed
qed

lemma get_filtered_titles_returns:
  "\<exists>ts. get_filtered_titles lower soup kws m = Inr ts"
  unfolding get_filtered_titles_def by (rule filter_loop_returns)

lemma keys_word_count: "set (map fst (word_count titles kws)) = set kws"
  by (simp add: word_count_def keys_dict_fold)

lemma scrape_and_analyze_returns:
  assumes "get_articles_soup ev url = Inr soup"
    and "get_filtered_titles (str_lower ev) soup kws m = Inr titles"
    and "\<not> list_ex (cell_refused ev) titles"
    and "\<not> list_ex (label_refused ev) kws"
  shows "fst (scrape_and_analyze ev url kws m w) = Inr (titles, word_count titles kws)"
proof -
  from assms(4) have "\<not> list_ex (label_refused ev) (map fst (word_count titles kws))"
    using keys_word_count [of titles kws] by (auto simp: list_ex_iff simp del: set_map)
  with assms(1-3) show ?thesis
    by (simp add: scrape_and_analyze_def save_titles_to_excel_def create_bar_chart_def Let_def)
qed

lemma scrape_and_analyze_returned:
  assumes "fst (scrape_and_analyze ev url kws m w) = Inr (titles, wc)"
  shows "\<exists>soup. get_articles_soup ev url = Inr soup \<and>
    get_filtered_titles (str_lower ev) soup kws m = Inr titles \<and>
    wc = word_count titles kws"
  using assms
  by (auto simp: scrape_and_analyze_def save_titles_to_excel_def create_bar_chart_def Let_def
      split: sum.splits if_splits)

lemma export_raises_on_control_character:
  "scrape_and_analyze (sample_env ctrl_soup) ''url'' [''bank''] 50 empty_world =
     (Inl IllegalCharacterError,
      \<lparr>excel_files = [(''article_titles.xlsx'', ''Title'', [''bank''])], charts_shown = []\<rparr>)"
  by code_simp

lemma count_substring:
  "keyword_count k titles = int (length (filter (\<lambda>t. \<exists>ps ss. t = ps @ k @ ss) titles))"
proof -
  have "filter (str_in k) titles = filter (\<lambda>t. \<exists>ps ss. t = ps @ k @ ss) titles"
    by (rule filter_cong) (simp_all add: str_in_iff)
  then show ?thesis by (simp add: keyword_count_filter)
qed

section \<open>The cap\<close>

text \<open>
  C1. Claimed: with \<open>max_article = 0\<close> the filtered title list is empty and every count
  is 0. The script tests \<^verbatim>\<open>len(titles) == max_article\<close> only after a title may have been
  appended, so once the first article processed matches, the length is 1 and never equals
  0 again. On the document with the titles "bank" and "Bank bank" and the keyword "bank",
  \<open>max_article = 0\<close> returns both titles and the count 2.
\<close>

theorem C1_max_article_zero_keeps_matches:
  "get_filtered_titles ascii_lower bank_soup [''bank''] 0 = Inr [''bank'', ''bank bank''] \<and>
   fst (scrape_and_analyze (sample_env bank_soup) ''url'' [''bank''] 0 empty_world) =
     Inr ([''bank'', ''bank bank''], [(''bank'', 2)])"
  by code_simp

text \<open>
  C2, as claimed (the length of the filtered list never exceeds \<open>max_article\<close>, for every
  \<open>max_article\<close>), fails for a negative \<open>max_article\<close>: no list is that short, and the
  script returns every matching title.
\<close>

theorem C2_negative_cap_counterexample:
  "get_filtered_titles ascii_lower bank_soup [''bank''] (- 1) = Inr [''bank'', ''bank bank''] \<and>
   \<not> int (length [''bank'', ''bank bank'']) \<le> - 1"
  by code_simp

text \<open>
  C2, amended: for every parsed tree, every keyword list and every \<open>max_article\<close> of at
  least 1, the filter returns a list, and its length does not exceed \<open>max_article\<close>.
\<close>

theorem C2_length_within_positive_cap:
  "1 \<le> max_article \<Longrightarrow>
     \<exists>titles. get_filtered_titles lower soup key_words max_article = Inr titles \<and>
       int (length titles) \<le> max_article"
proof -
  assume pos: "1 \<le> max_article"
  obtain titles where r: "get_filtered_titles lower soup key_words max_article = Inr titles"
    using get_filtered_titles_returns by blast
  from pos have "int (length ([] :: string list)) < max_article" by simp
  with r have "int (length titles) \<le> max_article"
    unfolding get_filtered_titles_def by (rule filter_loop_length [rotated])
  with r show ?thesis by blast
qed

theorem C2_length_within_positive_cap_witness:
  "(1::int) \<le> 1 \<and> get_filtered_titles ascii_lower bank_soup [''bank''] 1 = Inr [''bank''] \<and>
   int (length [''bank'']) \<le> 1"
proof -
  have v: "get_filtered_titles ascii_lower bank_soup [''bank''] 1 = Inr [''bank'']" by code_simp
  with C2_length_within_positive_cap
    [where max_article = 1 and lower = ascii_lower and soup = bank_soup
       and key_words = "[''bank'']"] show ?thesis by simp
qed

section \<open>Filtering\<close>

text \<open>
  C3. For every keyword list \<open>K\<close>, every tree and every \<open>max_article\<close>, the filter returns
  a list, and every title in it contains some keyword of \<open>K\<close> as a contiguous substring:
  the title is some prefix, then the keyword, then some suffix.
\<close>

theorem C3_filtered_titles_contain_keyword:
  "\<exists>titles. get_filtered_titles lower soup K max_article = Inr titles \<and>
     (\<forall>t\<in>set titles. \<exists>k\<in>set K. \<exists>ps ss. t = ps @ k @ ss)"
proof -
  obtain titles where r: "get_filtered_titles lower soup K max_article = Inr titles"
    using get_filtered_titles_returns by blast
  have "\<exists>k\<in>set K. \<exists>ps ss. t = ps @ k @ ss" if "t \<in> set titles" for t
  proof -
    from r that have "t \<in> set [] \<or> contains_keywords t K"
      unfolding get_filtered_titles_def by (rule filter_loop_members)
    then show ?thesis by (simp add: contains_keywords_iff)
  qed
  with r show ?thesis by blast
qed

theorem C3_filtered_titles_contain_keyword_witness:
  "get_filtered_titles ascii_lower bank_soup [''bank'', ''crisis''] 5 = Inr [''bank'', ''bank bank''] \<and>
   (\<exists>k\<in>set [''bank'', ''crisis'']. \<exists>ps ss. ''bank bank'' = ps @ k @ ss)"
proof -
  have v: "get_filtered_titles ascii_lower bank_soup [''bank'', ''crisis''] 5 = Inr [''bank'', ''bank bank'']"
    by code_simp
  from C3_filtered_titles_contain_keyword
    [where lower = ascii_lower and soup = bank_soup and K = "[''bank'', ''crisis'']"
       and max_article = 5] v
  have "\<forall>t\<in>set [''bank'', ''bank bank'']. \<exists>k\<in>set [''bank'', ''crisis'']. \<exists>ps ss. t = ps @ k @ ss"
    by simp
  then have "\<exists>k\<in>set [''bank'', ''crisis'']. \<exists>ps ss. ''bank bank'' = ps @ k @ ss"
    by simp
  with v show ?thesis by blast
qed

section \<open>Counting\<close>

text \<open>
  C4. The counts are computed over the capped filtered list: when a run returns a title
  list and a count mapping, the title list is the one the filter returns for the cap on
  the parsed page, and for every keyword \<open>k\<close> of the keyword list the count stored for
  \<open>k\<close> is the number of titles in that list that contain \<open>k\<close> as a contiguous
  substring. A run returns them whenever the page is fetched and parsed, the spreadsheet
  writer refuses none of the filtered titles and the charting library none of the
  keywords. For the titles "bank" and "bank bank", the keyword list ["bank"] and
  \<open>max_article = 1\<close>, the filtered list is ["bank"] and the count mapping is {"bank": 1}.
\<close>

theorem C4_counts_over_capped_list:
  "(fst (scrape_and_analyze ev url key_words max_article w) = Inr (titles, wc) \<longrightarrow>
      (\<exists>soup. get_articles_soup ev url = Inr soup \<and>
         get_filtered_titles (str_lower ev) soup key_words max_article = Inr titles) \<and>
      (\<forall>k\<in>set key_words.
         map_of wc k = Some (int (length (filter (\<lambda>t. \<exists>ps ss. t = ps @ k @ ss) titles))))) \<and>
   (get_articles_soup ev url = Inr page \<and>
    get_filtered_titles (str_lower ev) page key_words max_article = Inr ts \<and>
    \<not> list_ex (cell_refused ev) ts \<and> \<not> list_ex (label_refused ev) key_words \<longrightarrow>
      fst (scrape_and_analyze ev url key_words max_article w) =
        Inr (ts, word_count ts key_words)) \<and>
   get_filtered_titles ascii_lower bank_soup [''bank''] 1 = Inr [''bank''] \<and>
   fst (scrape_and_analyze (sample_env bank_soup) ''url'' [''bank''] 1 empty_world) =
     Inr ([''bank''], [(''bank'', 1)])"
proof (intro conjI impI)
  assume r: "fst (scrape_and_analyze ev url key_words max_article w) = Inr (titles, wc)"
  from scrape_and_analyze_returned [OF r]
  obtain soup where s: "get_articles_soup ev url = Inr soup"
    and t: "get_filtered_titles (str_lower ev) soup key_words max_article = Inr titles"
    and c: "wc = word_count titles key_words"
    by blast
  from s t show "\<exists>soup. get_articles_soup ev url = Inr soup \<and>
         get_filtered_titles (str_lower ev) soup key_words max_article = Inr titles"
    by blast
  from c show "\<forall>k\<in>set key_words.
      map_of wc k = Some (int (length (filter (\<lambda>t. \<exists>ps ss. t = ps @ k @ ss) titles)))"
    by (simp add: map_of_word_count count_substring)
next
  assume "get_articles_soup ev url = Inr page \<and>
    get_filtered_titles (str_lower ev) page key_words max_article = Inr ts \<and>
    \<not> list_ex (cell_refused ev) ts \<and> \<not> list_ex (label_refused ev) key_words"
  then show "fst (scrape_and_analyze ev url key_words max_article w) =
        Inr (ts, word_count ts key_words)"
    by (simp add: scrape_and_analyze_returns)
next
  show "get_filtered_titles ascii_lower bank_soup [''bank''] 1 = Inr [''bank'']" by code_simp
next
  show "fst (scrape_and_analyze (sample_env bank_soup) ''url'' [''bank''] 1 empty_world) =
     Inr ([''bank''], [(''bank'', 1)])" by code_simp
qed

theorem C4_counts_over_capped_list_witness:
  "fst (scrape_and_analyze (sample_env bank_soup) ''url'' [''bank'', ''crisis''] 1 empty_world) =
     Inr ([''bank''], [(''bank'', 1), (''crisis'', 0)]) \<and>
   get_articles_soup (sample_env bank_soup) ''url'' = Inr bank_soup \<and>
   get_filtered_titles (str_lower (sample_env bank_soup)) bank_soup [''bank'', ''crisis''] 1 =
     Inr [''bank''] \<and>
   \<not> list_ex (cell_refused (sample_env bank_soup)) [''bank''] \<and>
   \<not> list_ex (label_refused (sample_env bank_soup)) [''bank'', ''crisis''] \<and>
   map_of [(''bank'', 1), (''crisis'', 0 :: int)] ''crisis'' =
     Some (int (length (filter (\<lambda>t. \<exists>ps ss. t = ps @ ''crisis'' @ ss) [''bank''])))"
proof -
  let ?ev = "sample_env bank_soup"
  have v: "fst (scrape_and_analyze ?ev ''url'' [''bank'', ''crisis''] 1 empty_world) =
     Inr ([''bank''], [(''bank'', 1), (''crisis'', 0)])"
    by code_simp
  have s: "get_articles_soup ?ev ''url'' = Inr bank_soup"
    by (simp add: get_articles_soup_def sample_env_def)
  have t: "get_filtered_titles (str_lower ?ev) bank_soup [''bank'', ''crisis''] 1 = Inr [''bank'']"
    by code_simp
  have x: "\<not> list_ex (cell_refused ?ev) [''bank'']"
    "\<not> list_ex (label_refused ?ev) [''bank'', ''crisis'']"
    by code_simp+
  note inst = C4_counts_over_capped_list
    [where ev = ?ev and url = "''url''" and key_words = "[''bank'', ''crisis'']"
       and max_article = 1 and w = empty_world and titles = "[''bank'']"
       and wc = "[(''bank'', 1), (''crisis'', 0)]" and page = bank_soup and ts = "[''bank'']"]
  from inst v have "\<forall>k\<in>set [''bank'', ''crisis''].
      map_of [(''bank'', 1), (''crisis'', 0 :: int)] k =
        Some (int (length (filter (\<lambda>t. \<exists>ps ss. t = ps @ k @ ss) [''bank''])))"
    by blast
  then have "map_of [(''bank'', 1), (''crisis'', 0 :: int)] ''crisis'' =
     Some (int (length (filter (\<lambda>t. \<exists>ps ss. t = ps @ ''crisis'' @ ss) [''bank''])))"
    by simp
  with v s t x show ?thesis by blast
qed

text \<open>
  C5, as claimed (one entry per input keyword, duplicates kept as redundant entries),
  fails: a dictionary holds a key once, so the keyword list ["bank", "bank"] gives a
  mapping with the single entry "bank".
\<close>

theorem C5_duplicate_keywords_counterexample:
  "word_count [''bank''] [''bank'', ''bank''] = [(''bank'', 1)] \<and>
   fst (scrape_and_analyze (sample_env bank_soup) ''url'' [''bank'', ''bank''] 1 empty_world) =
     Inr ([''bank''], [(''bank'', 1)]) \<and>
   length (word_count [''bank''] [''bank'', ''bank'']) \<noteq> length [''bank'', ''bank'']"
  by code_simp

text \<open>
  C5, amended: for every title list and every keyword list, the keyword count mapping has
  exactly one entry per distinct input keyword (zero-valued entries included): its keys
  are pairwise distinct, they are the keywords of the list, and their number is the
  number of distinct keywords. A keyword listed more than once is merged into one entry.
\<close>

theorem C5_one_entry_per_distinct_keyword:
  "distinct (map fst (word_count titles key_words)) \<and>
   set (map fst (word_count titles key_words)) = set key_words \<and>
   length (word_count titles key_words) = card (set key_words)"
proof -
  let ?wc = "word_count titles key_words"
  have d: "distinct (map fst ?wc)"
    unfolding word_count_def by (rule distinct_dict_fold) simp
  have k: "set (map fst ?wc) = set key_words"
    by (simp add: word_count_def keys_dict_fold)
  from d have "card (set (map fst ?wc)) = length (map fst ?wc)" by (rule distinct_card)
  with k have "length ?wc = card (set key_words)" by simp
  with d k show ?thesis by blast
qed

text \<open>
  C8. When a run returns a title list and a count mapping, then for every keyword \<open>k\<close>
  of the input keyword list the mapping holds a count for \<open>k\<close>, and that count is at most
  the length of the returned title list.
\<close>

theorem C8_count_at_most_length:
  "fst (scrape_and_analyze ev url key_words max_article w) = Inr (titles, wc) \<Longrightarrow>
     k \<in> set key_words \<Longrightarrow> \<exists>c. map_of wc k = Some c \<and> c \<le> int (length titles)"
proof -
  assume r: "fst (scrape_and_analyze ev url key_words max_article w) = Inr (titles, wc)"
    and k: "k \<in> set key_words"
  from scrape_and_analyze_returned [OF r] have "wc = word_count titles key_words" by blast
  with k have "map_of wc k = Some (keyword_count k titles)" by (simp add: map_of_word_count)
  with keyword_count_le [of k titles] show ?thesis by blast
qed

theorem C8_count_at_most_length_witness:
  "fst (scrape_and_analyze (sample_env bank_soup) ''url'' [''crisis'', ''bank''] 50 empty_world) =
     Inr ([''bank'', ''bank bank''], [(''crisis'', 0), (''bank'', 2)]) \<and>
   ''bank'' \<in> set [''crisis'', ''bank''] \<and>
   (\<exists>c. map_of [(''crisis'', 0), (''bank'', 2 :: int)] ''bank'' = Some c \<and>
      c \<le> int (length [''bank'', ''bank bank'']))"
proof -
  have v: "fst (scrape_and_analyze (sample_env bank_soup) ''url'' [''crisis'', ''bank''] 50
      empty_world) = Inr ([''bank'', ''bank bank''], [(''crisis'', 0), (''bank'', 2)])"
    by code_simp
  have k: "''bank'' \<in> set [''crisis'', ''bank'']" by simp
  from C8_count_at_most_length [OF v k] v k show ?thesis by blast
qed

section \<open>Articles without a heading, and the edge cases\<close>

text \<open>
  C6. An article node with no \<^verbatim>\<open>h4\<close> descendant is skipped locally: its
  \<^verbatim>\<open>get_title\<close> raises \<^verbatim>\<open>AttributeError\<close>, and the loop over the article nodes gives
  the same result with the node as without it, whatever nodes come before and after and
  whatever has been collected so far. For a tree with five article nodes of which the
  third has no heading, the titles of the tree are those of nodes 1, 2, 4, 5 in that
  order; they are what the filter returns when each of them matches a keyword and the
  cap does not cut the list (\<open>max_article\<close> is none of 1, 2, 3).
\<close>

theorem C6_article_without_heading_skipped:
  "(find_first ''h4'' a = None \<longrightarrow>
      get_title lower a ''h4'' = Inl AttributeError \<and>
      filter_loop lower (xs @ a # ys) key_words max_article titles =
        filter_loop lower (xs @ ys) key_words max_article titles) \<and>
   (find_all ''article'' soup = [a1, a2, a3, a4, a5] \<and>
    get_title lower a1 ''h4'' = Inr t1 \<and> get_title lower a2 ''h4'' = Inr t2 \<and>
    find_first ''h4'' a3 = None \<and>
    get_title lower a4 ''h4'' = Inr t4 \<and> get_title lower a5 ''h4'' = Inr t5 \<longrightarrow>
      document_titles lower soup = [t1, t2, t4, t5] \<and>
      (list_all (\<lambda>t. contains_keywords t kws) [t1, t2, t4, t5] \<and> m \<notin> {1, 2, 3} \<longrightarrow>
         get_filtered_titles lower soup kws m = Inr [t1, t2, t4, t5]))"
proof (intro conjI impI)
  assume "find_first ''h4'' a = None"
  then show e: "get_title lower a ''h4'' = Inl AttributeError" by (simp add: get_title_def)
  then show "filter_loop lower (xs @ a # ys) key_words max_article titles =
        filter_loop lower (xs @ ys) key_words max_article titles"
    by (rule filter_loop_skip)
next
  assume h: "find_all ''article'' soup = [a1, a2, a3, a4, a5] \<and>
    get_title lower a1 ''h4'' = Inr t1 \<and> get_title lower a2 ''h4'' = Inr t2 \<and>
    find_first ''h4'' a3 = None \<and>
    get_title lower a4 ''h4'' = Inr t4 \<and> get_title lower a5 ''h4'' = Inr t5"
  then have e: "get_title lower a3 ''h4'' = Inl AttributeError" by (simp add: get_title_def)
  with h show "document_titles lower soup = [t1, t2, t4, t5]" by (simp add: document_titles_def)
  assume k: "list_all (\<lambda>t. contains_keywords t kws) [t1, t2, t4, t5] \<and> m \<notin> {1, 2, 3}"
  with h e show "get_filtered_titles lower soup kws m = Inr [t1, t2, t4, t5]"
    by (simp add: get_filtered_titles_def Let_def)
qed

theorem C6_article_without_heading_skipped_witness:
  "find_first ''h4'' article_without_heading = None \<and>
   find_all ''article'' five_soup =
     [article_with_title ''bank one'', article_with_title ''bank two'',
      article_without_heading,
      article_with_title ''bank four'', article_with_title ''bank five''] \<and>
   list_all (\<lambda>t. contains_keywords t [''bank''])
     [''bank one'', ''bank two'', ''bank four'', ''bank five''] \<and>
   (10::int) \<notin> {1, 2, 3} \<and>
   document_titles ascii_lower five_soup = [''bank one'', ''bank two'', ''bank four'', ''bank five''] \<and>
   get_filtered_titles ascii_lower five_soup [''bank''] 10 =
     Inr [''bank one'', ''bank two'', ''bank four'', ''bank five'']"
proof -
  have n: "find_first ''h4'' article_without_heading = None" by code_simp
  have f: "find_all ''article'' five_soup =
     [article_with_title ''bank one'', article_with_title ''bank two'',
      article_without_heading,
      article_with_title ''bank four'', article_with_title ''bank five'']" by code_simp
  have t: "get_title ascii_lower (article_with_title ''bank one'') ''h4'' = Inr ''bank one''"
    "get_title ascii_lower (article_with_title ''bank two'') ''h4'' = Inr ''bank two''"
    "get_title ascii_lower (article_with_title ''bank four'') ''h4'' = Inr ''bank four''"
    "get_title ascii_lower (article_with_title ''bank five'') ''h4'' = Inr ''bank five''"
    by code_simp+
  have k: "list_all (\<lambda>t. contains_keywords t [''bank''])
     [''bank one'', ''bank two'', ''bank four'', ''bank five'']" by code_simp
  have m: "(10::int) \<notin> {1, 2, 3}" by simp
  from C6_article_without_heading_skipped
    [where lower = ascii_lower and a = article_without_heading and xs = "[]" and ys = "[]"
       and key_words = "[]" and max_article = 0 and titles = "[]" and soup = five_soup
       and ?a1.0 = "article_with_title ''bank one''"
       and ?a2.0 = "article_with_title ''bank two''"
       and ?a3.0 = article_without_heading
       and ?a4.0 = "article_with_title ''bank four''"
       and ?a5.0 = "article_with_title ''bank five''"
       and ?t1.0 = "''bank one''" and ?t2.0 = "''bank two''"
       and ?t4.0 = "''bank four''" and ?t5.0 = "''bank five''"
       and kws = "[''bank'']" and m = 10]
    n f t k m
  show ?thesis by blast
qed

text \<open>
  C7. For every parsed tree and every \<open>max_article\<close>, the empty keyword list gives an
  empty filtered title list, and a run whose fetch and parse give that tree returns the
  empty title list and the empty keyword count mapping.
\<close>

theorem C7_empty_keyword_list:
  "get_filtered_titles lower soup [] max_article = Inr [] \<and>
   (get_articles_soup ev url = Inr soup \<longrightarrow>
      fst (scrape_and_analyze ev url [] max_article w) = Inr ([], []))"
proof -
  have l: "filter_loop f arts [] max_article [] = Inr []" for f arts
  proof (induction arts)
    case Nil
    show ?case by simp
  next
    case (Cons a arts)
    show ?case
    proof (cases "get_title f a ''h4''")
      case (Inl e)
      then have "e = AttributeError" by (rule get_title_error)
      with Inl Cons.IH show ?thesis by simp
    next
      case (Inr t)
      with Cons.IH show ?thesis by (simp add: contains_keywords_def)
    qed
  qed
  then have r: "get_filtered_titles f soup [] max_article = Inr []" for f
    by (simp add: get_filtered_titles_def)
  have "fst (scrape_and_analyze ev url [] max_article w) = Inr ([], [])"
    if "get_articles_soup ev url = Inr soup"
    using scrape_and_analyze_returns [OF that r, of w] by (simp add: word_count_def)
  with r show ?thesis by blast
qed

theorem C7_empty_keyword_list_witness:
  "get_articles_soup (sample_env bank_soup) ''url'' = Inr bank_soup \<and>
   get_filtered_titles ascii_lower bank_soup [] 50 = Inr [] \<and>
   fst (scrape_and_analyze (sample_env bank_soup) ''url'' [] 50 empty_world) = Inr ([], [])"
proof -
  have s: "get_articles_soup (sample_env bank_soup) ''url'' = Inr bank_soup"
    by (simp add: get_articles_soup_def sample_env_def)
  with C7_empty_keyword_list
    [where lower = ascii_lower and soup = bank_soup and max_article = 50
       and ev = "sample_env bank_soup" and url = "''url''" and w = empty_world]
  show ?thesis by blast
qed

text \<open>
  C10. For a negative \<open>max_article\<close> the length test never holds, and the filter returns
  every title of the tree that matches a keyword, in document order.
\<close>

theorem C10_negative_cap_returns_every_match:
  "max_article < 0 \<Longrightarrow>
     get_filtered_titles lower soup key_words max_article =
       Inr (filter (\<lambda>t. contains_keywords t key_words) (document_titles lower soup))"
  by (simp add: get_filtered_titles_def document_titles_def filter_loop_negative)

theorem C10_negative_cap_returns_every_match_witness:
  "(- 3 :: int) < 0 \<and>
   document_titles ascii_lower five_soup = [''bank one'', ''bank two'', ''bank four'', ''bank five''] \<and>
   get_filtered_titles ascii_lower five_soup [''four'', ''one''] (- 3) = Inr [''bank one'', ''bank four'']"
proof -
  have d: "document_titles ascii_lower five_soup = [''bank one'', ''bank two'', ''bank four'', ''bank five'']"
    by code_simp
  have f: "filter (\<lambda>t. contains_keywords t [''four'', ''one''])
      [''bank one'', ''bank two'', ''bank four'', ''bank five''] = [''bank one'', ''bank four'']"
    by code_simp
  have n: "(- 3 :: int) < 0" by simp
  from C10_negative_cap_returns_every_match
    [OF n, where lower = ascii_lower and soup = five_soup and key_words = "[''four'', ''one'']"] d f n
  show ?thesis by simp
qed

section \<open>Failure of the fetch or of the parse\<close>

text \<open>
  C9. If the fetch raises, or the fetch returns and the parse of the whole document
  raises, the run ends with that exception and the world as it was: no file written, no
  chart displayed, no result returned.
\<close>

theorem C9_fetch_or_parse_failure_propagates:
  "requests_get ev url = Inl e \<or>
   (\<exists>markup. requests_get ev url = Inr markup \<and> BeautifulSoup ev markup = Inl e) \<Longrightarrow>
     scrape_and_analyze ev url key_words max_article w = (Inl e, w)"
  by (auto simp: scrape_and_analyze_def get_articles_soup_def)

theorem C9_fetch_or_parse_failure_propagates_witness:
  "requests_get offline_env ''url'' = Inl RequestException \<and>
   scrape_and_analyze offline_env ''url'' [''bank''] 50 empty_world =
     (Inl RequestException, empty_world) \<and>
   requests_get unparsable_env ''url'' = Inr ''<html>'' \<and>
   BeautifulSoup unparsable_env ''<html>'' = Inl ParserRejectedMarkup \<and>
   scrape_and_analyze unparsable_env ''url'' [''bank''] 50 empty_world =
     (Inl ParserRejectedMarkup, empty_world) \<and>
   excel_files empty_world = [] \<and> charts_shown empty_world = []"
proof -
  have f: "requests_get offline_env ''url'' = Inl RequestException"
    by (simp add: offline_env_def)
  then have f': "requests_get offline_env ''url'' = Inl RequestException \<or>
   (\<exists>markup. requests_get offline_env ''url'' = Inr markup \<and>
      BeautifulSoup offline_env markup = Inl RequestException)" by blast
  have g: "requests_get unparsable_env ''url'' = Inr ''<html>''"
    "BeautifulSoup unparsable_env ''<html>'' = Inl ParserRejectedMarkup"
    by (simp_all add: unparsable_env_def)
  then have g': "requests_get unparsable_env ''url'' = Inl ParserRejectedMarkup \<or>
   (\<exists>markup. requests_get unparsable_env ''url'' = Inr markup \<and>
      BeautifulSoup unparsable_env markup = Inl ParserRejectedMarkup)" by blast
  from C9_fetch_or_parse_failure_propagates [OF f', of "[''bank'']" 50 empty_world]
    C9_fetch_or_parse_failure_propagates [OF g', of "[''bank'']" 50 empty_world] f g
  show ?thesis by (simp add: empty_world_def)
qed

end
